theory Spec2Isabelle
  imports Main
begin

section \<open>Data model of \<open>flight_monitor.py\<close>\<close>

text \<open>
  Dates are \<open>datetime\<close> values at midnight; the model holds a date as its proleptic
  Gregorian ordinal (\<open>date.toordinal()\<close>), an \<open>int\<close>. \<open>datetime\<close> represents the
  ordinals 1 (0001-01-01) to 3652059 (9999-12-31) only; adding a \<open>Timedelta\<close> that
  leaves this range raises \<open>OverflowError\<close>. A \<open>pd.Timedelta\<close> counts nanoseconds in
  64 bits: \<open>pd.Timedelta(days=n)\<close> raises \<open>OutOfBoundsTimedelta\<close> unless \<open>n\<close> is
  between -106751 and 106751.
\<close>

type_synonym date = int

datatype py_error = OverflowError | OutOfBoundsTimedelta

definition MINORDINAL :: int where
  "MINORDINAL = 1"

definition MAXORDINAL :: int where
  "MAXORDINAL = 3652059"

definition Timedelta_days :: "int \<Rightarrow> py_error + int" where
  "Timedelta_days n =
     (if - 106751 \<le> n \<and> n \<le> 106751 then Inr n else Inl OutOfBoundsTimedelta)"

definition add_days :: "date \<Rightarrow> int \<Rightarrow> py_error + date" where
  "add_days d n =
     (if MINORDINAL \<le> d + n \<and> d + n \<le> MAXORDINAL then Inr (d + n) else Inl OverflowError)"

text \<open>
  A search key is the string \<open>f"{title}_{dep_date:%Y%m%d}_{return_date:%Y%m%d}"\<close>.
  The model keeps its three components apart, under the names of the variables they
  are formatted from.
\<close>

record search_key =
  key_title :: string
  key_dep_date :: date
  key_return_date :: date

text \<open>
  The fields of \<open>FlightMonitor\<close>. \<open>dates_range\<close> holds the two dates that
  \<open>setup_keys_names\<close> obtains from \<open>datetime.strptime\<close>; \<open>urls\<close> holds the keys of
  the \<open>urls\<close> dictionary in insertion order (the URL stored under a key is only handed
  to the browser).
\<close>

record flight_monitor =
  price_threshold :: int
  check_interval :: int
  retry_interval :: int
  last_price :: "int option"
  lowest_price_list :: "int option"
  destination :: string
  dates_range :: "date \<times> date"
  shortest_date :: int
  urls :: "search_key list"

section \<open>\<open>setup_keys_names\<close>\<close>

text \<open>
  The inner \<open>while\<close> of \<open>setup_keys_names\<close> (lines 74-77), on the loop variables
  \<open>dep_date\<close>, \<open>return_date\<close> and \<open>keys\<close>.
\<close>

function keys_inner ::
  "string \<Rightarrow> date \<Rightarrow> date \<Rightarrow> date \<Rightarrow> date \<Rightarrow> search_key list
     \<Rightarrow> py_error + (date \<times> date \<times> search_key list)" where
  "keys_inner t first_date last_date dep_date return_date keys =
     (if dep_date \<ge> first_date \<and> return_date \<le> last_date then
        (case add_days dep_date 1 of
           Inl e \<Rightarrow> Inl e
         | Inr dep_date' \<Rightarrow>
             (case add_days return_date 1 of
                Inl e \<Rightarrow> Inl e
              | Inr return_date' \<Rightarrow>
                  keys_inner t first_date last_date dep_date' return_date'
                    (keys @ [\<lparr>key_title = t, key_dep_date = dep_date,
                              key_return_date = return_date\<rparr>])))
      else Inr (dep_date, return_date, keys))"
  by pat_completeness auto
termination
  by (relation "measure (\<lambda>(t, f, l, d, r, ks). nat (l - r + 1))")
    (auto simp: add_days_def split: if_splits)

text \<open>The outer \<open>while\<close> (lines 72-81), on \<open>range_length\<close> and the same variables.\<close>

function keys_outer ::
  "string \<Rightarrow> date \<Rightarrow> date \<Rightarrow> int \<Rightarrow> int \<Rightarrow> date \<Rightarrow> date \<Rightarrow> search_key list
     \<Rightarrow> py_error + search_key list" where
  "keys_outer t first_date last_date shortest range_length dep_date return_date keys =
     (if range_length \<ge> shortest then
        (case keys_inner t first_date last_date dep_date return_date keys of
           Inl e \<Rightarrow> Inl e
         | Inr (dep_date', return_date', keys') \<Rightarrow>
             (case Timedelta_days (range_length - 1 - 1) of
                Inl e \<Rightarrow> Inl e
              | Inr days \<Rightarrow>
                  (case add_days first_date days of
                     Inl e \<Rightarrow> Inl e
                   | Inr return_date'' \<Rightarrow>
                       keys_outer t first_date last_date shortest (range_length - 1)
                         first_date return_date'' keys')))
      else Inr keys)"
  by pat_completeness auto
termination
  by (relation "measure (\<lambda>(t, f, l, s, n, d, r, ks). nat (n - s + 1))") auto

definition setup_keys_names :: "flight_monitor \<Rightarrow> py_error + search_key list" where
  "setup_keys_names m =
     (let first_date = fst (dates_range m);
          last_date = snd (dates_range m);
          range_length = (last_date - first_date) + 1
      in keys_outer (destination m) first_date last_date (shortest_date m) range_length
           first_date last_date [])"

text \<open>The two dates of a key.\<close>

definition key_dates :: "search_key \<Rightarrow> date \<times> date" where
  "key_dates k = (key_dep_date k, key_return_date k)"

section \<open>\<open>setup_urls\<close> and \<open>__init__\<close>\<close>

text \<open>
  \<open>setup_urls\<close> stores one URL per key in the dictionary \<open>self.urls\<close>. A Python
  dictionary keeps a key at the position of its first insertion; \<open>dict_keys\<close> gives
  the keys of the dictionary after the insertions, in iteration order.
\<close>

definition dict_keys :: "'a list \<Rightarrow> 'a list" where
  "dict_keys ks = fold (\<lambda>k acc. if k \<in> set acc then acc else acc @ [k]) ks []"

definition setup_urls :: "flight_monitor \<Rightarrow> py_error + flight_monitor" where
  "setup_urls m =
     (case setup_keys_names m of
        Inl e \<Rightarrow> Inl e
      | Inr dates_combinations \<Rightarrow> Inr (m\<lparr>urls := dict_keys dates_combinations\<rparr>))"

text \<open>
  \<open>__init__\<close>: the assignments to the fields, with the dates \<open>"2025-12-21"\<close> and
  \<open>"2026-01-11"\<close> as ordinals, then \<open>self.setup_urls()\<close>.
\<close>

definition init_fields :: flight_monitor where
  "init_fields =
     \<lparr>price_threshold = 8000, check_interval = 1800, retry_interval = 60,
       last_price = None, lowest_price_list = None, destination = ''GOT-BJS'',
       dates_range = (739606, 739627), shortest_date = 16, urls = []\<rparr>"

definition FlightMonitor_init :: "py_error + flight_monitor" where
  "FlightMonitor_init = setup_urls init_fields"

section \<open>\<open>fetch_flight_data\<close>\<close>

text \<open>
  The five XPath expressions of \<open>price_selectors\<close>, in the order of the list. The
  browser alone reads them, so the model names them.
\<close>

datatype selector =
  ResultsFirstSpan | ResultsCardLink | PriceTextDiv | PriceTextAny | AnyKrText

definition price_selectors :: "selector list" where
  "price_selectors = [ResultsFirstSpan, ResultsCardLink, PriceTextDiv, PriceTextAny, AnyKrText]"

text \<open>
  What \<open>wait.until(EC.presence_of_element_located(...))\<close> followed by
  \<open>price_element.text\<close> does for one selector: it times out, yields the text of the
  element, or raises some other exception.
\<close>

datatype lookup = TimeoutException | ElementText string | OtherException

text \<open>
  The browser's behaviour on the page of one key: whether an exception escapes the
  navigation and cookie consent steps (lines 157-178; the retried \<open>driver.get\<close> and
  \<open>check_element_exists\<close> catch their own, \<open>cookie_button.click()\<close> only a
  \<open>TimeoutException\<close>), the outcome of each selector, and whether writing the
  \<open>debug_page_{key}.html\<close> file raises.
\<close>

record rendered_page =
  consent_raises :: bool
  wait_until :: "selector \<Rightarrow> lookup"
  snapshot_raises :: bool

text \<open>\<open>"kr" in raw_price\<close>.\<close>

fun contains_kr :: "string \<Rightarrow> bool" where
  "contains_kr (c # d # cs) =
     (if c = CHR ''k'' \<and> d = CHR ''r'' then True else contains_kr (d # cs))"
| "contains_kr cs = False"

text \<open>
  The loop over \<open>price_selectors\<close> (lines 190-203). \<open>raw_price\<close> is a local variable
  of \<open>fetch_flight_data\<close>: \<open>None\<close> stands for the variable being unbound, \<open>Some\<close> for
  the string it holds. The result says whether an exception other than
  \<open>TimeoutException\<close> left the loop, and gives \<open>raw_price\<close> afterwards.
\<close>

fun try_selectors :: "(selector \<Rightarrow> lookup) \<Rightarrow> selector list \<Rightarrow> string option
    \<Rightarrow> bool \<times> string option" where
  "try_selectors page [] raw_price = (False, raw_price)"
| "try_selectors page (sel # rest) raw_price =
     (case page sel of
        TimeoutException \<Rightarrow> try_selectors page rest raw_price
      | ElementText text \<Rightarrow>
          if text \<noteq> [] \<and> contains_kr text then (False, Some text)
          else try_selectors page rest (Some text)
      | OtherException \<Rightarrow> (True, raw_price))"

text \<open>
  The state of the loop over \<open>self.urls.items()\<close>: the list \<open>flight_data\<close>, the
  variable \<open>raw_price\<close>, and the keys whose page source was written to a debug file.
\<close>

record fetch_state =
  flight_data :: "(search_key \<times> string option) list"
  raw_price :: "string option"
  snapshots :: "search_key list"

text \<open>
  One iteration of that loop (lines 156-218). Reading the unbound \<open>raw_price\<close> at line
  205 raises \<open>UnboundLocalError\<close>, which the handler at line 215 catches like every
  other exception of the body.
\<close>

definition fetch_key :: "search_key \<Rightarrow> rendered_page \<Rightarrow> fetch_state \<Rightarrow> fetch_state" where
  "fetch_key key page st =
     (if consent_raises page then st\<lparr>flight_data := flight_data st @ [(key, None)]\<rparr>
      else
        (case try_selectors (wait_until page) price_selectors (raw_price st) of
           (True, rp) \<Rightarrow> st\<lparr>flight_data := flight_data st @ [(key, None)], raw_price := rp\<rparr>
         | (False, None) \<Rightarrow> st\<lparr>flight_data := flight_data st @ [(key, None)]\<rparr>
         | (False, Some text) \<Rightarrow>
             if text \<noteq> [] then
               st\<lparr>flight_data := flight_data st @ [(key, Some text)], raw_price := Some text\<rparr>
             else if snapshot_raises page then
               st\<lparr>flight_data := flight_data st @ [(key, None), (key, None)],
                  raw_price := Some text\<rparr>
             else
               st\<lparr>flight_data := flight_data st @ [(key, None)], raw_price := Some text,
                  snapshots := snapshots st @ [key]\<rparr>))"

text \<open>
  \<open>fetch_flight_data\<close> returns \<open>flight_data if flight_data else None\<close>; the second
  component lists the debug files written.
\<close>

definition fetch_flight_data :: "search_key list \<Rightarrow> (search_key \<Rightarrow> rendered_page)
    \<Rightarrow> (search_key \<times> string option) list option \<times> search_key list" where
  "fetch_flight_data us pages =
     (let st = fold (\<lambda>key st. fetch_key key (pages key) st) us
                 \<lparr>flight_data = [], raw_price = None, snapshots = []\<rparr>
      in (if flight_data st \<noteq> [] then Some (flight_data st) else None, snapshots st))"

section \<open>\<open>parse_price\<close>\<close>

text \<open>
  Characters are bytes here, so the model covers ASCII text: \<open>\d\<close> and \<open>isdigit\<close>
  are the digits \<open>0\<close> to \<open>9\<close>.
\<close>

text \<open>\<open>raw_price.replace("kr", "")\<close>: occurrences are removed from left to right.\<close>

fun replace_kr :: "string \<Rightarrow> string" where
  "replace_kr (c # d # cs) =
     (if c = CHR ''k'' \<and> d = CHR ''r'' then replace_kr cs else c # replace_kr (d # cs))"
| "replace_kr cs = cs"

definition is_digit :: "char \<Rightarrow> bool" where
  "is_digit c = (48 \<le> (of_char c :: nat) \<and> (of_char c :: nat) \<le> 57)"

definition int_of_digits :: "string \<Rightarrow> int" where
  "int_of_digits cs = foldl (\<lambda>n c. 10 * n + (int (of_char c) - 48)) 0 cs"

text \<open>
  \<open>int(price_clean)\<close> raises \<open>ValueError\<close> on more than 4300 digits (the default
  limit of CPython from 3.11 on); the handler at line 244 records \<open>None\<close> then.
\<close>

definition int_max_str_digits :: nat where
  "int_max_str_digits = 4300"

definition parse_one :: "string \<Rightarrow> int option" where
  "parse_one raw =
     (let price_text = filter (\<lambda>c. c \<noteq> CHR '','')
                         (filter (\<lambda>c. c \<noteq> CHR '' '') (replace_kr raw));
          price_clean = filter is_digit price_text
      in if price_clean \<noteq> [] then
           (if length price_clean > int_max_str_digits then None
            else Some (int_of_digits price_clean))
         else None)"

fun parse_price :: "(search_key \<times> string option) list \<Rightarrow> (search_key \<times> int option) list" where
  "parse_price [] = []"
| "parse_price ((key, None) # rest) = parse_price rest"
| "parse_price ((key, Some raw) # rest) = (key, parse_one raw) # parse_price rest"

section \<open>\<open>check_flight_price\<close>\<close>

text \<open>\<open>[price for price in flight_prices if price[1] is not None]\<close>\<close>

fun valid_prices_of :: "(search_key \<times> int option) list \<Rightarrow> (search_key \<times> int) list" where
  "valid_prices_of [] = []"
| "valid_prices_of ((key, None) # rest) = valid_prices_of rest"
| "valid_prices_of ((key, Some price) # rest) = (key, price) # valid_prices_of rest"

text \<open>
  Lines 301-312: the value of \<open>should_send_email\<close> and the monitor after the
  assignments to \<open>self.lowest_price_list\<close>.
\<close>

definition decide_alert :: "flight_monitor \<Rightarrow> int \<Rightarrow> bool \<times> flight_monitor" where
  "decide_alert m current_lowest_price =
     (if current_lowest_price < price_threshold m then
        (case lowest_price_list m of
           None \<Rightarrow> (True, m\<lparr>lowest_price_list := Some current_lowest_price\<rparr>)
         | Some best \<Rightarrow>
             if current_lowest_price < best
             then (True, m\<lparr>lowest_price_list := Some current_lowest_price\<rparr>)
             else (False, m))
      else (False, m))"

text \<open>
  What one call of \<open>check_flight_price\<close> meets outside the program: whether
  \<open>setup_driver\<close> returns a driver or raises, the pages the browser renders, and
  whether \<open>send_email\<close> returns \<open>True\<close> (it catches every exception and returns
  \<open>False\<close>).
\<close>

record cycle_env =
  driver_starts :: bool
  pages :: "search_key \<Rightarrow> rendered_page"
  email_delivered :: bool

text \<open>
  What a call reports: the returned \<open>statue\<close>, the value of \<open>should_send_email\<close>
  (\<open>False\<close> when the call returns before line 301), and the argument of
  \<open>send_email\<close> when it is called.
\<close>

record cycle_report =
  statue :: bool
  should_send_email :: bool
  email_body :: "(search_key \<times> int) list option"

definition check_flight_price :: "flight_monitor \<Rightarrow> cycle_env \<Rightarrow> flight_monitor \<times> cycle_report" where
  "check_flight_price m env =
     (let failed = \<lparr>statue = False, should_send_email = False, email_body = None\<rparr> in
      if \<not> driver_starts env then (m, failed)
      else
        (case fst (fetch_flight_data (urls m) (pages env)) of
           None \<Rightarrow> (m, failed)
         | Some flight_raw_price \<Rightarrow>
             (let flight_prices = parse_price flight_raw_price;
                  valid_prices = valid_prices_of flight_prices
              in if valid_prices = [] then (m, failed)
                 else
                   (let current_lowest_price = min_list (map snd valid_prices);
                        (send, m') = decide_alert m current_lowest_price
                    in if send then
                         (let below_threshold_prices =
                                filter (\<lambda>price. snd price < price_threshold m') valid_prices
                          in (m'\<lparr>last_price := Some current_lowest_price\<rparr>,
                              \<lparr>statue = email_delivered env, should_send_email = True,
                                email_body = Some below_threshold_prices\<rparr>))
                       else
                         (m'\<lparr>last_price := Some current_lowest_price\<rparr>,
                          \<lparr>statue = True, should_send_email = False, email_body = None\<rparr>)))))"

text \<open>A sequence of calls, each on the monitor the previous one left.\<close>

fun run_cycles :: "flight_monitor \<Rightarrow> cycle_env list \<Rightarrow> (flight_monitor \<times> cycle_report) list" where
  "run_cycles m [] = []"
| "run_cycles m (env # envs) =
     (let r = check_flight_price m env in r # run_cycles (fst r) envs)"

definition monitor_states :: "flight_monitor \<Rightarrow> cycle_env list \<Rightarrow> flight_monitor list" where
  "monitor_states m envs = m # map fst (run_cycles m envs)"

section \<open>\<open>run\<close>\<close>

text \<open>
  What happens in the \<open>try\<close> body of one iteration of \<open>while True\<close> besides the call
  itself: nothing, an exception other than \<open>KeyboardInterrupt\<close> that reaches the
  handler at line 365 (\<open>check_flight_price\<close> catches its own, so it is raised after the
  call returned), or the operator's \<open>KeyboardInterrupt\<close>.
\<close>

datatype try_event = Completes | UnexpectedException | KeyboardInterrupt

datatype loop_action = Sleep int | Break

definition run_iteration :: "flight_monitor \<Rightarrow> cycle_env \<Rightarrow> try_event
    \<Rightarrow> flight_monitor \<times> loop_action" where
  "run_iteration m env ev =
     (case ev of
        KeyboardInterrupt \<Rightarrow> (m, Break)
      | UnexpectedException \<Rightarrow>
          (let (m', report) = check_flight_price m env in (m', Sleep (check_interval m')))
      | Completes \<Rightarrow>
          (let (m', report) = check_flight_price m env
           in if statue report then (m', Sleep (check_interval m'))
              else (m', Sleep (retry_interval m'))))"

text \<open>
  The loop runs until \<open>break\<close>; the model runs it on a finite list of iterations'
  environments and returns the monitor and the actions taken, in order.
\<close>

fun run :: "flight_monitor \<Rightarrow> (cycle_env \<times> try_event) list
    \<Rightarrow> flight_monitor \<times> loop_action list" where
  "run m [] = (m, [])"
| "run m ((env, ev) # rest) =
     (case run_iteration m env ev of
        (m', Break) \<Rightarrow> (m', [Break])
      | (m', Sleep n) \<Rightarrow> (case run m' rest of (m'', acts) \<Rightarrow> (m'', Sleep n # acts)))"

section \<open>Example inputs\<close>

text \<open>
  Two keys of the monitored window, a monitor that polls exactly these two, and
  environments in which the first selector finds a given text on each page (the other
  selectors time out).
\<close>

definition key1 :: search_key where
  "key1 = \<lparr>key_title = ''GOT-BJS'', key_dep_date = 739606, key_return_date = 739627\<rparr>"

definition key2 :: search_key where
  "key2 = \<lparr>key_title = ''GOT-BJS'', key_dep_date = 739606, key_return_date = 739626\<rparr>"

definition two_key_monitor :: flight_monitor where
  "two_key_monitor = init_fields\<lparr>urls := [key1, key2]\<rparr>"

definition page_with :: "lookup \<Rightarrow> rendered_page" where
  "page_with l =
     \<lparr>consent_raises = False,
      wait_until = (\<lambda>sel. if sel = ResultsFirstSpan then l else TimeoutException),
      snapshot_raises = False\<rparr>"

definition two_pages :: "lookup \<Rightarrow> lookup \<Rightarrow> search_key \<Rightarrow> rendered_page" where
  "two_pages l1 l2 = (\<lambda>key. if key = key1 then page_with l1 else page_with l2)"

definition cycle_with :: "lookup \<Rightarrow> lookup \<Rightarrow> bool \<Rightarrow> cycle_env" where
  "cycle_with l1 l2 delivered =
     \<lparr>driver_starts = True, pages = two_pages l1 l2, email_delivered = delivered\<rparr>"

definition three_cycles :: "cycle_env list" where
  "three_cycles =
     [cycle_with (ElementText ''7 500 kr'') (ElementText ''9 000 kr'') True,
      cycle_with (ElementText ''7 600 kr'') (ElementText ''9 000 kr'') True,
      cycle_with (ElementText ''7 200 kr'') (ElementText ''9 000 kr'') True]"

section \<open>Ordering of monitors by the held lowest price\<close>

text \<open>
  \<open>no_higher a b\<close>: if \<open>lowest_price_list\<close> is set in \<open>a\<close>, it is set in \<open>b\<close> to a
  value that is not higher.
\<close>

definition no_higher :: "flight_monitor \<Rightarrow> flight_monitor \<Rightarrow> bool" where
  "no_higher a b =
     (case lowest_price_list a of
        None \<Rightarrow> True
      | Some x \<Rightarrow> (case lowest_price_list b of None \<Rightarrow> False | Some y \<Rightarrow> y \<le> x))"

section \<open>Properties of the key generator\<close>

declare keys_inner.simps [simp del]
declare keys_outer.simps [simp del]

lemma add_days_Inr: "add_days d n = Inr x \<Longrightarrow> x = d + n \<and> MINORDINAL \<le> d + n \<and> d + n \<le> MAXORDINAL"
  by (auto simp: add_days_def split: if_splits)

lemma keys_inner_result:
  "keys_inner t f l d r ks = Inr (d', r', ks') \<Longrightarrow>
   \<exists>new. ks' = ks @ new \<and> distinct (map key_dates new) \<and>
     (\<forall>k\<in>set new. key_title k = t \<and> key_return_date k - key_dep_date k = r - d \<and>
        d \<le> key_dep_date k \<and> f \<le> key_dep_date k \<and> key_return_date k \<le> l)"
proof (induction t f l d r ks rule: keys_inner.induct)
  case (1 t f l d r ks)
  show ?case
  proof (cases "d \<ge> f \<and> r \<le> l")
    case False
    with "1.prems" show ?thesis by (simp add: keys_inner.simps)
  next
    case True
    let ?k = "\<lparr>key_title = t, key_dep_date = d, key_return_date = r\<rparr>"
    from True "1.prems" obtain x y where
      x: "add_days d 1 = Inr x" and y: "add_days r 1 = Inr y" and
      rec: "keys_inner t f l x y (ks @ [?k]) = Inr (d', r', ks')"
      by (auto simp: keys_inner.simps [of t f l d r ks] split: sum.splits)
    from x y have xy: "x = d + 1" "y = r + 1" by (auto dest: add_days_Inr)
    from "1.IH" [OF True x y rec] obtain new where
      new: "ks' = (ks @ [?k]) @ new" "distinct (map key_dates new)"
        "\<forall>k\<in>set new. key_title k = t \<and> key_return_date k - key_dep_date k = y - x \<and>
           x \<le> key_dep_date k \<and> f \<le> key_dep_date k \<and> key_return_date k \<le> l"
      by blast
    have "key_dates ?k \<notin> key_dates ` set new" using new(3) xy by (auto simp: key_dates_def)
    with new xy True show ?thesis
      by (intro exI [of _ "?k # new"]) auto
  qed
qed


lemma keys_outer_result:
  assumes "keys_outer t f l s n d r ks = Inr out"
    and "r - d = n - 1"
    and "distinct (map key_dates ks)"
    and "\<forall>k\<in>set ks. key_return_date k - key_dep_date k \<ge> n"
    and "\<forall>k\<in>set ks. key_title k = t \<and> f \<le> key_dep_date k \<and> key_return_date k \<le> l \<and>
           s \<le> key_return_date k - key_dep_date k + 1"
  shows "distinct (map key_dates out) \<and>
     (\<forall>k\<in>set out. key_title k = t \<and> f \<le> key_dep_date k \<and> key_return_date k \<le> l \<and>
        s \<le> key_return_date k - key_dep_date k + 1)"
  using assms
proof (induction t f l s n d r ks rule: keys_outer.induct)
  case (1 t f l s n d r ks)
  show ?case
  proof (cases "n \<ge> s")
    case False
    with "1.prems" show ?thesis by (simp add: keys_outer.simps)
  next
    case True
    from True "1.prems"(1) obtain d' r' ks' days r'' where
      inner: "keys_inner t f l d r ks = Inr (d', r', ks')" and
      days: "Timedelta_days (n - 1 - 1) = Inr days" and
      r'': "add_days f days = Inr r''" and
      rec: "keys_outer t f l s (n - 1) f r'' ks' = Inr out"
      by (auto simp: keys_outer.simps [of t f l s n d r ks] split: sum.splits)
    from keys_inner_result [OF inner] obtain new where
      new: "ks' = ks @ new" "distinct (map key_dates new)"
        "\<forall>k\<in>set new. key_title k = t \<and> key_return_date k - key_dep_date k = r - d \<and>
           d \<le> key_dep_date k \<and> f \<le> key_dep_date k \<and> key_return_date k \<le> l"
      by blast
    have "days = n - 1 - 1"
      using days by (simp add: Timedelta_days_def split: if_splits)
    then have diff: "r'' - f = n - 1 - 1" using add_days_Inr [OF r''] by simp
    have disj: "key_dates ` set ks \<inter> key_dates ` set new = {}"
      using new(3) "1.prems"(2,4) by (fastforce simp: key_dates_def)
    have d1: "distinct (map key_dates ks')"
      using new(1,2) "1.prems"(3) disj by simp
    have d2: "\<forall>k\<in>set ks'. key_return_date k - key_dep_date k \<ge> n - 1"
      using new(1,3) "1.prems"(2,4) by fastforce
    have d3: "\<forall>k\<in>set ks'. key_title k = t \<and> f \<le> key_dep_date k \<and> key_return_date k \<le> l \<and>
           s \<le> key_return_date k - key_dep_date k + 1"
      using new(1,3) "1.prems"(2,5) True by fastforce
    show ?thesis
      by (rule "1.IH" [OF True inner refl refl days r'' rec diff d1 d2 d3])
  qed
qed

lemma keys_inner_returns:
  assumes "MINORDINAL \<le> f" and "l < MAXORDINAL" and "d \<le> r"
  shows "\<exists>d' r' ks'. keys_inner t f l d r ks = Inr (d', r', ks')"
  using assms
proof (induction t f l d r ks rule: keys_inner.induct)
  case (1 t f l d r ks)
  show ?case
  proof (cases "d \<ge> f \<and> r \<le> l")
    case False
    then show ?thesis by (subst keys_inner.simps) auto
  next
    case True
    have x: "add_days d 1 = Inr (d + 1)" and y: "add_days r 1 = Inr (r + 1)"
      using True "1.prems" by (auto simp: add_days_def MINORDINAL_def)
    from "1.IH" [OF True x y] "1.prems" obtain d' r' ks' where
      "keys_inner t f l (d + 1) (r + 1)
         (ks @ [\<lparr>key_title = t, key_dep_date = d, key_return_date = r\<rparr>]) = Inr (d', r', ks')"
      by auto
    with True x y show ?thesis
      by (simp add: keys_inner.simps [of t f l d r ks])
  qed
qed

lemma keys_outer_returns:
  assumes "MINORDINAL \<le> f" and "l < MAXORDINAL" and "1 \<le> s" and "3 \<le> f + s"
    and "l - f \<le> 106752"
    and "r - d = n - 1" and "d = f" and "r \<le> l"
  shows "\<exists>out. keys_outer t f l s n d r ks = Inr out"
  using assms
proof (induction t f l s n d r ks rule: keys_outer.induct)
  case (1 t f l s n d r ks)
  show ?case
  proof (cases "n \<ge> s")
    case False
    then show ?thesis by (subst keys_outer.simps) auto
  next
    case True
    have "d \<le> r" using True "1.prems" by simp
    from keys_inner_returns [OF "1.prems"(1,2) this] obtain d' r' ks' where
      inner: "keys_inner t f l d r ks = Inr (d', r', ks')" by blast
    have days: "Timedelta_days (n - 1 - 1) = Inr (n - 1 - 1)"
      using True "1.prems" by (auto simp: Timedelta_days_def)
    have r'': "add_days f (n - 1 - 1) = Inr (f + (n - 1 - 1))"
      using True "1.prems" by (auto simp: add_days_def MINORDINAL_def)
    have "\<exists>out. keys_outer t f l s (n - 1) f (f + (n - 1 - 1)) ks' = Inr out"
      using "1.prems" by (intro "1.IH" [OF True inner refl refl days r'']) auto
    with True inner days r'' show ?thesis
      by (simp add: keys_outer.simps [of t f l s n d r ks])
  qed
qed


lemma setup_keys_names_result:
  assumes "setup_keys_names m = Inr keys"
  shows "distinct (map key_dates keys) \<and>
     (\<forall>k\<in>set keys. key_title k = destination m \<and> fst (dates_range m) \<le> key_dep_date k \<and>
        key_return_date k \<le> snd (dates_range m) \<and>
        shortest_date m \<le> key_return_date k - key_dep_date k + 1)"
  using assms unfolding setup_keys_names_def Let_def
  by (rule keys_outer_result) simp_all

text \<open>
  No date arithmetic overflows, and a list of keys is returned, when the window lies
  within the dates that \<open>datetime\<close> represents with a day to spare at its end, spans
  no more days than a \<open>pd.Timedelta\<close> holds, and the minimal trip length is at least
  1 (at least 2 for a window that starts on 0001-01-01).
\<close>

lemma setup_keys_names_returns:
  assumes "MINORDINAL \<le> fst (dates_range m)" and "snd (dates_range m) < MAXORDINAL"
    and "1 \<le> shortest_date m" and "3 \<le> fst (dates_range m) + shortest_date m"
    and "snd (dates_range m) - fst (dates_range m) \<le> 106752"
  shows "\<exists>keys. setup_keys_names m = Inr keys"
  unfolding setup_keys_names_def Let_def
  by (rule keys_outer_returns [OF assms]) simp_all


text \<open>
  C7, as the code has it. The specification says that key generation fails with a
  \<open>ConfigurationError\<close> whenever \<open>minTripLength\<close> exceeds the window length or
  \<open>windowStart\<close> is after \<open>windowEnd\<close>. \<open>setup_keys_names\<close> checks neither: with the
  window 2025-12-21 to 2026-01-11 (22 days) and a minimal trip of 23 days, and with
  the window reversed, it returns the empty list of keys.
\<close>

theorem setup_keys_names_no_error_counterexample:
  "setup_keys_names (init_fields\<lparr>shortest_date := 23\<rparr>) = Inr [] \<and>
   \<not> isl (setup_keys_names (init_fields\<lparr>shortest_date := 23\<rparr>)) \<and>
   setup_keys_names (init_fields\<lparr>dates_range := (739627, 739606)\<rparr>) = Inr [] \<and>
   \<not> isl (setup_keys_names (init_fields\<lparr>dates_range := (739627, 739606)\<rparr>))"
  by (simp add: setup_keys_names_def init_fields_def keys_outer.simps)

text \<open>
  C7, amended: whenever \<open>minTripLength\<close> exceeds the window length
  \<open>windowEnd - windowStart + 1\<close>, the generator raises nothing and returns the empty
  list of keys; this is the case whenever \<open>windowStart\<close> is after \<open>windowEnd\<close> and
  \<open>minTripLength\<close> is at least 1.
\<close>

theorem setup_keys_names_short_window:
  "(snd (dates_range m) - fst (dates_range m) + 1 < shortest_date m
      \<longrightarrow> setup_keys_names m = Inr []) \<and>
   (snd (dates_range m) < fst (dates_range m) \<and> 1 \<le> shortest_date m
      \<longrightarrow> setup_keys_names m = Inr [])"
  by (simp add: setup_keys_names_def keys_outer.simps)

theorem setup_keys_names_short_window_witness:
  "snd (dates_range (init_fields\<lparr>shortest_date := 23\<rparr>))
     - fst (dates_range (init_fields\<lparr>shortest_date := 23\<rparr>)) + 1
     < shortest_date (init_fields\<lparr>shortest_date := 23\<rparr>) \<and>
   setup_keys_names (init_fields\<lparr>shortest_date := 23\<rparr>) = Inr [] \<and>
   snd (dates_range (init_fields\<lparr>dates_range := (739627, 739606)\<rparr>))
     < fst (dates_range (init_fields\<lparr>dates_range := (739627, 739606)\<rparr>)) \<and>
   1 \<le> shortest_date (init_fields\<lparr>dates_range := (739627, 739606)\<rparr>) \<and>
   setup_keys_names (init_fields\<lparr>dates_range := (739627, 739606)\<rparr>) = Inr []"
  using setup_keys_names_short_window [of "init_fields\<lparr>shortest_date := 23\<rparr>"]
    setup_keys_names_short_window [of "init_fields\<lparr>dates_range := (739627, 739606)\<rparr>"]
  by (simp add: init_fields_def)

text \<open>
  C8, as the code has it. The specification takes every configuration with
  \<open>windowStart \<le> windowEnd\<close> and \<open>minTripLength\<close> at most the window length as valid.
  A one-day window with \<open>minTripLength = 0\<close> is such a configuration, and the
  generator also sweeps the trip length 0 there: it emits a key that returns the day
  before it departs, and a key that departs the day after the window ends. The
  ordinals 739605, 739606 and 739607 are 2025-12-20, 2025-12-21 and 2025-12-22.
\<close>

theorem setup_keys_names_keys_valid_counterexample:
  "fst (dates_range (init_fields\<lparr>dates_range := (739606, 739606), shortest_date := 0\<rparr>))
     \<le> snd (dates_range (init_fields\<lparr>dates_range := (739606, 739606), shortest_date := 0\<rparr>)) \<and>
   shortest_date (init_fields\<lparr>dates_range := (739606, 739606), shortest_date := 0\<rparr>)
     \<le> snd (dates_range (init_fields\<lparr>dates_range := (739606, 739606), shortest_date := 0\<rparr>))
       - fst (dates_range (init_fields\<lparr>dates_range := (739606, 739606), shortest_date := 0\<rparr>)) + 1 \<and>
   setup_keys_names (init_fields\<lparr>dates_range := (739606, 739606), shortest_date := 0\<rparr>) =
     Inr [\<lparr>key_title = ''GOT-BJS'', key_dep_date = 739606, key_return_date = 739606\<rparr>,
          \<lparr>key_title = ''GOT-BJS'', key_dep_date = 739606, key_return_date = 739605\<rparr>,
          \<lparr>key_title = ''GOT-BJS'', key_dep_date = 739607, key_return_date = 739606\<rparr>] \<and>
   \<not> key_dep_date \<lparr>key_title = ''GOT-BJS'', key_dep_date = 739606, key_return_date = 739605\<rparr>
       \<le> key_return_date
           \<lparr>key_title = ''GOT-BJS'', key_dep_date = 739606, key_return_date = 739605\<rparr> \<and>
   \<not> key_dep_date \<lparr>key_title = ''GOT-BJS'', key_dep_date = 739607, key_return_date = 739606\<rparr>
       \<le> snd (dates_range (init_fields\<lparr>dates_range := (739606, 739606), shortest_date := 0\<rparr>))"
  by (simp add: setup_keys_names_def init_fields_def keys_outer.simps keys_inner.simps
      add_days_def Timedelta_days_def MINORDINAL_def MAXORDINAL_def)

text \<open>
  C8, amended: for every valid configuration (\<open>windowStart \<le> windowEnd\<close>,
  \<open>minTripLength\<close> at most the window length) whose \<open>minTripLength\<close> is at least 1,
  every generated key satisfies \<open>departDate \<le> returnDate\<close>,
  \<open>returnDate - departDate + 1 \<ge> minTripLength\<close>, and both dates lie within
  \<open>[windowStart, windowEnd]\<close>.
\<close>

theorem setup_keys_names_keys_valid:
  assumes "fst (dates_range m) \<le> snd (dates_range m)"
    and "shortest_date m \<le> snd (dates_range m) - fst (dates_range m) + 1"
    and "1 \<le> shortest_date m"
    and "setup_keys_names m = Inr keys"
  shows "\<forall>k\<in>set keys.
           key_dep_date k \<le> key_return_date k \<and>
           shortest_date m \<le> key_return_date k - key_dep_date k + 1 \<and>
           fst (dates_range m) \<le> key_dep_date k \<and> key_dep_date k \<le> snd (dates_range m) \<and>
           fst (dates_range m) \<le> key_return_date k \<and> key_return_date k \<le> snd (dates_range m)"
proof
  fix k
  assume "k \<in> set keys"
  with setup_keys_names_result [OF assms(4)] have
    "fst (dates_range m) \<le> key_dep_date k" "key_return_date k \<le> snd (dates_range m)"
    "shortest_date m \<le> key_return_date k - key_dep_date k + 1"
    by auto
  with assms(3) show
    "key_dep_date k \<le> key_return_date k \<and>
     shortest_date m \<le> key_return_date k - key_dep_date k + 1 \<and>
     fst (dates_range m) \<le> key_dep_date k \<and> key_dep_date k \<le> snd (dates_range m) \<and>
     fst (dates_range m) \<le> key_return_date k \<and> key_return_date k \<le> snd (dates_range m)"
    by simp
qed

text \<open>
  The amended C8 on the window 2025-12-21 to 2025-12-23 with a minimal trip of two
  days: three keys are generated, and each is within the window.
\<close>

theorem setup_keys_names_keys_valid_witness:
  "fst (dates_range (init_fields\<lparr>dates_range := (739606, 739608), shortest_date := 2\<rparr>))
     \<le> snd (dates_range (init_fields\<lparr>dates_range := (739606, 739608), shortest_date := 2\<rparr>)) \<and>
   setup_keys_names (init_fields\<lparr>dates_range := (739606, 739608), shortest_date := 2\<rparr>) =
     Inr [\<lparr>key_title = ''GOT-BJS'', key_dep_date = 739606, key_return_date = 739608\<rparr>,
          \<lparr>key_title = ''GOT-BJS'', key_dep_date = 739606, key_return_date = 739607\<rparr>,
          \<lparr>key_title = ''GOT-BJS'', key_dep_date = 739607, key_return_date = 739608\<rparr>] \<and>
   list_all (\<lambda>k. key_dep_date k \<le> key_return_date k \<and>
       2 \<le> key_return_date k - key_dep_date k + 1 \<and>
       739606 \<le> key_dep_date k \<and> key_dep_date k \<le> 739608 \<and>
       739606 \<le> key_return_date k \<and> key_return_date k \<le> 739608)
     [\<lparr>key_title = ''GOT-BJS'', key_dep_date = 739606, key_return_date = 739608\<rparr>,
      \<lparr>key_title = ''GOT-BJS'', key_dep_date = 739606, key_return_date = 739607\<rparr>,
      \<lparr>key_title = ''GOT-BJS'', key_dep_date = 739607, key_return_date = 739608\<rparr>]"
proof -
  let ?m = "init_fields\<lparr>dates_range := (739606, 739608), shortest_date := 2\<rparr>"
  let ?keys = "[\<lparr>key_title = ''GOT-BJS'', key_dep_date = 739606, key_return_date = 739608\<rparr>,
      \<lparr>key_title = ''GOT-BJS'', key_dep_date = 739606, key_return_date = 739607\<rparr>,
      \<lparr>key_title = ''GOT-BJS'', key_dep_date = 739607, key_return_date = 739608\<rparr>]"
  have h1: "fst (dates_range ?m) \<le> snd (dates_range ?m)"
    by (simp add: init_fields_def)
  have h2: "shortest_date ?m \<le> snd (dates_range ?m) - fst (dates_range ?m) + 1"
    by (simp add: init_fields_def)
  have h3: "1 \<le> shortest_date ?m"
    by (simp add: init_fields_def)
  have h4: "setup_keys_names ?m = Inr ?keys"
    by (simp add: setup_keys_names_def init_fields_def keys_outer.simps keys_inner.simps
        add_days_def Timedelta_days_def MINORDINAL_def MAXORDINAL_def)
  from setup_keys_names_keys_valid [OF h1 h2 h3 h4] h1 h4 show ?thesis
    by (simp add: init_fields_def)
qed

text \<open>
  C9: the list of keys that the sliding-window generator returns holds every
  \<open>(departDate, returnDate)\<close> pair at most once. This holds for every configuration,
  valid or not: each sweep of the outer loop emits keys of one trip length, with
  departure dates that increase, and no trip length is swept twice.
\<close>

theorem setup_keys_names_distinct:
  "setup_keys_names m = Inr keys \<Longrightarrow> distinct (map key_dates keys)"
  using setup_keys_names_result by blast

text \<open>
  C9 on the configuration of \<open>__init__\<close> (2025-12-21 to 2026-01-11, at least 16
  days): the generator returns 28 keys, no two with the same dates.
\<close>

theorem setup_keys_names_distinct_witness:
  "\<not> isl (setup_keys_names init_fields) \<and>
   length (projr (setup_keys_names init_fields)) = 28 \<and>
   distinct (map key_dates (projr (setup_keys_names init_fields)))"
proof -
  have r: "\<not> isl (setup_keys_names init_fields) \<and>
      length (projr (setup_keys_names init_fields)) = 28"
    by (simp add: setup_keys_names_def init_fields_def keys_outer.simps keys_inner.simps
        add_days_def Timedelta_days_def MINORDINAL_def MAXORDINAL_def)
  then have "setup_keys_names init_fields = Inr (projr (setup_keys_names init_fields))"
    by (cases "setup_keys_names init_fields") simp_all
  from setup_keys_names_distinct [OF this] r show ?thesis
    by simp
qed

section \<open>Properties of \<open>check_flight_price\<close>\<close>

text \<open>The definitions that evaluate the model on a concrete input.\<close>

lemmas eval_defs = three_cycles_def monitor_states_def check_flight_price_def fetch_flight_data_def fetch_key_def price_selectors_def
  parse_one_def is_digit_def int_of_digits_def int_max_str_digits_def decide_alert_def
  two_key_monitor_def init_fields_def page_with_def two_pages_def cycle_with_def key1_def key2_def
  Let_def

text \<open>The decision of lines 301-312 and the monitor it leaves.\<close>

lemma decide_alert_cases:
  "decide_alert m c = (send, m') \<Longrightarrow>
     (send \<longleftrightarrow> c < price_threshold m \<and>
        (lowest_price_list m = None \<or> (\<exists>best. lowest_price_list m = Some best \<and> c < best))) \<and>
     m' = (if send then m\<lparr>lowest_price_list := Some c\<rparr> else m)"
  by (auto simp: decide_alert_def split: if_splits option.splits)

text \<open>
  A call that reaches line 294 (a driver, fetched data, at least one valid price), and
  a call that returns before.
\<close>

lemma check_flight_price_evaluated:
  assumes "driver_starts env"
    and "fst (fetch_flight_data (urls m) (pages env)) = Some flight_raw_price"
    and "valid_prices_of (parse_price flight_raw_price) = valid_prices"
    and "valid_prices \<noteq> []"
    and "decide_alert m (min_list (map snd valid_prices)) = (send, m')"
  shows "check_flight_price m env =
     (m'\<lparr>last_price := Some (min_list (map snd valid_prices))\<rparr>,
      \<lparr>statue = (if send then email_delivered env else True), should_send_email = send,
        email_body = (if send
          then Some (filter (\<lambda>price. snd price < price_threshold m') valid_prices) else None)\<rparr>)"
  using assms by (simp add: check_flight_price_def Let_def)

lemma check_flight_price_failed:
  assumes "\<not> driver_starts env \<or> fst (fetch_flight_data (urls m) (pages env)) = None \<or>
     (\<exists>raw. fst (fetch_flight_data (urls m) (pages env)) = Some raw \<and>
        valid_prices_of (parse_price raw) = [])"
  shows "check_flight_price m env =
     (m, \<lparr>statue = False, should_send_email = False, email_body = None\<rparr>)"
  using assms by (auto simp: check_flight_price_def Let_def)

text \<open>What one call may change in the monitor.\<close>

lemma check_flight_price_step:
  assumes "check_flight_price m env = (m', r)"
  shows "(lowest_price_list m' \<noteq> lowest_price_list m \<longrightarrow> should_send_email r) \<and>
     (\<forall>b. lowest_price_list m = Some b \<longrightarrow>
        (\<exists>b'. lowest_price_list m' = Some b' \<and> b' \<le> b)) \<and>
     (\<forall>b'. lowest_price_list m' = Some b' \<longrightarrow>
        lowest_price_list m = Some b' \<or> b' < price_threshold m) \<and>
     price_threshold m' = price_threshold m \<and> check_interval m' = check_interval m \<and>
     retry_interval m' = retry_interval m \<and> urls m' = urls m"
proof (cases "driver_starts env \<and> (\<exists>raw. fst (fetch_flight_data (urls m) (pages env)) = Some raw \<and>
        valid_prices_of (parse_price raw) \<noteq> [])")
  case False
  then have "check_flight_price m env =
     (m, \<lparr>statue = False, should_send_email = False, email_body = None\<rparr>)"
    by (intro check_flight_price_failed) (cases "fst (fetch_flight_data (urls m) (pages env))", auto)
  with assms show ?thesis by auto
next
  case True
  then obtain raw where raw: "driver_starts env"
    "fst (fetch_flight_data (urls m) (pages env)) = Some raw"
    "valid_prices_of (parse_price raw) \<noteq> []" by blast
  obtain send m1 where d: "decide_alert m (min_list (map snd (valid_prices_of (parse_price raw)))) = (send, m1)"
    by (cases "decide_alert m (min_list (map snd (valid_prices_of (parse_price raw))))")
  from check_flight_price_evaluated [OF raw(1,2) refl raw(3) d] assms
  have m': "m' = m1\<lparr>last_price := Some (min_list (map snd (valid_prices_of (parse_price raw))))\<rparr>"
    and r: "should_send_email r = send" by auto
  from decide_alert_cases [OF d] m' r show ?thesis
    by (auto split: if_splits)
qed


text \<open>The monitors of a sequence of calls are ordered by \<open>no_higher\<close>.\<close>

lemma no_higher_refl: "no_higher a a"
  by (simp add: no_higher_def split: option.splits)

lemma no_higher_trans: "no_higher a b \<Longrightarrow> no_higher b c \<Longrightarrow> no_higher a c"
  by (auto simp: no_higher_def split: option.splits)

lemma no_higher_step: "no_higher m (fst (check_flight_price m env))"
  using check_flight_price_step [of m env "fst (check_flight_price m env)" "snd (check_flight_price m env)"]
  by (auto simp: no_higher_def split: option.splits)

lemma monitor_states_Cons:
  "monitor_states m (env # envs) = m # monitor_states (fst (check_flight_price m env)) envs"
  by (simp add: monitor_states_def Let_def)

lemma monitor_states_Nil: "monitor_states m [] = [m]"
  by (simp add: monitor_states_def)

lemma length_monitor_states: "length (monitor_states m envs) = Suc (length envs)"
  by (induction envs arbitrary: m) (simp_all add: monitor_states_Nil monitor_states_Cons)

lemma length_run_cycles: "length (run_cycles m envs) = length envs"
  by (induction envs arbitrary: m) (simp_all add: Let_def)

lemma no_higher_all: "s \<in> set (monitor_states m envs) \<Longrightarrow> no_higher m s"
proof (induction envs arbitrary: m)
  case Nil
  then show ?case by (simp add: monitor_states_Nil no_higher_refl)
next
  case (Cons env envs)
  then show ?case
    by (auto simp: monitor_states_Cons no_higher_refl
        intro: no_higher_trans [OF no_higher_step])
qed

lemma monitor_states_sorted: "sorted_wrt no_higher (monitor_states m envs)"
  by (induction envs arbitrary: m)
    (auto simp: monitor_states_Nil monitor_states_Cons
      intro: no_higher_trans [OF no_higher_step no_higher_all])

lemma change_only_on_fire:
  "i < length envs \<Longrightarrow>
   lowest_price_list (monitor_states m envs ! Suc i) \<noteq> lowest_price_list (monitor_states m envs ! i)
   \<Longrightarrow> should_send_email (snd (run_cycles m envs ! i))"
proof (induction envs arbitrary: m i)
  case Nil
  then show ?case by simp
next
  case (Cons env envs)
  show ?case
  proof (cases i)
    case 0
    with Cons.prems(2) check_flight_price_step [of m env "fst (check_flight_price m env)" "snd (check_flight_price m env)"]
    show ?thesis
      by (cases envs) (auto simp: monitor_states_Cons monitor_states_Nil Let_def)
  next
    case (Suc j)
    with Cons.prems Cons.IH [of j "fst (check_flight_price m env)"] show ?thesis
      by (simp add: monitor_states_Cons Let_def)
  qed
qed

lemma below_threshold_all:
  assumes "\<forall>b. lowest_price_list m = Some b \<longrightarrow> b < price_threshold m"
    and "s \<in> set (monitor_states m envs)"
  shows "price_threshold s = price_threshold m \<and>
     (\<forall>b. lowest_price_list s = Some b \<longrightarrow> b < price_threshold s)"
  using assms
proof (induction envs arbitrary: m)
  case Nil
  then show ?case by (simp add: monitor_states_Nil)
next
  case (Cons env envs)
  let ?m' = "fst (check_flight_price m env)"
  from check_flight_price_step [of m env ?m' "snd (check_flight_price m env)"] Cons.prems(1)
  have inv': "\<forall>b. lowest_price_list ?m' = Some b \<longrightarrow> b < price_threshold ?m'"
    and thr: "price_threshold ?m' = price_threshold m" by auto
  from Cons.prems(2) consider "s = m" | "s \<in> set (monitor_states ?m' envs)"
    by (auto simp: monitor_states_Cons)
  then show ?case
  proof cases
    case 1
    with Cons.prems(1) show ?thesis by simp
  next
    case 2
    from Cons.IH [OF inv' 2] thr show ?thesis by auto
  qed
qed


text \<open>
  C1: in every call of \<open>check_flight_price\<close> that has at least one valid (non-null)
  price, \<open>should_send_email\<close> is set (and \<open>send_email\<close> is called) if and only if the
  minimum of the valid prices is strictly below \<open>price_threshold\<close> and
  \<open>lowest_price_list\<close> is \<open>None\<close> or strictly above that minimum. In particular
  the alert does not fire when the minimum is at or above the threshold, whatever the
  monitor holds.
\<close>

theorem alert_fires_iff:
  assumes "driver_starts env"
    and "fst (fetch_flight_data (urls m) (pages env)) = Some flight_raw_price"
    and "valid_prices_of (parse_price flight_raw_price) = valid_prices"
    and "valid_prices \<noteq> []"
  shows "(should_send_email (snd (check_flight_price m env)) \<longleftrightarrow>
            Min (snd ` set valid_prices) < price_threshold m \<and>
            (lowest_price_list m = None \<or>
             (\<exists>best. lowest_price_list m = Some best \<and> Min (snd ` set valid_prices) < best))) \<and>
         (email_body (snd (check_flight_price m env)) \<noteq> None \<longleftrightarrow>
            should_send_email (snd (check_flight_price m env))) \<and>
         (price_threshold m \<le> Min (snd ` set valid_prices) \<longrightarrow>
            \<not> should_send_email (snd (check_flight_price m env)))"
proof -
  let ?c = "min_list (map snd valid_prices)"
  have c: "?c = Min (snd ` set valid_prices)"
    using assms(4) by (simp add: min_list_Min)
  obtain send m' where d: "decide_alert m ?c = (send, m')"
    by (cases "decide_alert m ?c")
  from check_flight_price_evaluated [OF assms d]
  have "should_send_email (snd (check_flight_price m env)) = send"
    and "email_body (snd (check_flight_price m env)) \<noteq> None \<longleftrightarrow> send"
    by simp_all
  with decide_alert_cases [OF d] c show ?thesis
    by auto
qed

text \<open>
  C1 on the prices 7500 and 9000 with the threshold 8000: the alert fires with no
  price held, does not fire with 7500 held, and does not fire with the threshold 7500.
\<close>

theorem alert_fires_iff_witness:
  "driver_starts (cycle_with (ElementText ''7 500 kr'') (ElementText ''9 000 kr'') True) \<and>
   valid_prices_of (parse_price [(key1, Some ''7 500 kr''), (key2, Some ''9 000 kr'')]) =
     [(key1, 7500), (key2, 9000)] \<and>
   Min (snd ` set [(key1, 7500 :: int), (key2, 9000)]) = 7500 \<and>
   should_send_email (snd (check_flight_price two_key_monitor
     (cycle_with (ElementText ''7 500 kr'') (ElementText ''9 000 kr'') True))) \<and>
   \<not> should_send_email (snd (check_flight_price (two_key_monitor\<lparr>lowest_price_list := Some 7500\<rparr>)
     (cycle_with (ElementText ''7 500 kr'') (ElementText ''9 000 kr'') True))) \<and>
   \<not> should_send_email (snd (check_flight_price (two_key_monitor\<lparr>price_threshold := 7500\<rparr>)
     (cycle_with (ElementText ''7 500 kr'') (ElementText ''9 000 kr'') True)))"
proof -
  let ?env = "cycle_with (ElementText ''7 500 kr'') (ElementText ''9 000 kr'') True"
  let ?raw = "[(key1, Some ''7 500 kr''), (key2, Some ''9 000 kr'')]"
  let ?vp = "[(key1, 7500 :: int), (key2, 9000)]"
  have h1: "driver_starts ?env"
    by (simp add: cycle_with_def)
  have h2: "fst (fetch_flight_data (urls (m\<lparr>urls := [key1, key2]\<rparr>)) (pages ?env)) = Some ?raw" for m
    by (simp add: eval_defs)
  have h3: "valid_prices_of (parse_price ?raw) = ?vp"
    by (simp add: eval_defs)
  have h4: "?vp \<noteq> []"
    by simp
  have mn: "Min (snd ` set ?vp) = 7500"
    by simp
  have u: "two_key_monitor = init_fields\<lparr>urls := [key1, key2]\<rparr>"
      "two_key_monitor\<lparr>lowest_price_list := Some 7500\<rparr> =
         init_fields\<lparr>lowest_price_list := Some 7500\<rparr>\<lparr>urls := [key1, key2]\<rparr>"
      "two_key_monitor\<lparr>price_threshold := 7500\<rparr> =
         init_fields\<lparr>price_threshold := 7500\<rparr>\<lparr>urls := [key1, key2]\<rparr>"
    by (simp_all add: two_key_monitor_def)
  show ?thesis
    using alert_fires_iff [OF h1 h2 [of init_fields] h3 h4]
      alert_fires_iff [OF h1 h2 [of "init_fields\<lparr>lowest_price_list := Some 7500\<rparr>"] h3 h4]
      alert_fires_iff [OF h1 h2 [of "init_fields\<lparr>price_threshold := 7500\<rparr>"] h3 h4]
      h1 h3 mn u
    by (simp add: init_fields_def)
qed

text \<open>
  C2: over any sequence of calls of \<open>check_flight_price\<close>, once \<open>lowest_price_list\<close>
  is set every later monitor holds a value that is not higher, and the value differs
  between the monitors before and after a call only if that call set
  \<open>should_send_email\<close>. Here \<open>monitor_states m envs ! i\<close> is the monitor before call
  \<open>i\<close> and \<open>run_cycles m envs ! i\<close> the outcome of call \<open>i\<close>.
\<close>

theorem lowest_price_list_monotone:
  "(\<forall>i j b. i \<le> j \<and> j \<le> length envs \<and>
        lowest_price_list (monitor_states m envs ! i) = Some b \<longrightarrow>
        (\<exists>b'. lowest_price_list (monitor_states m envs ! j) = Some b' \<and> b' \<le> b)) \<and>
   (\<forall>i. i < length envs \<and>
        lowest_price_list (monitor_states m envs ! Suc i) \<noteq>
          lowest_price_list (monitor_states m envs ! i) \<longrightarrow>
        should_send_email (snd (run_cycles m envs ! i)))"
proof (intro conjI allI impI)
  fix i j b
  assume a: "i \<le> j \<and> j \<le> length envs \<and>
    lowest_price_list (monitor_states m envs ! i) = Some b"
  have "no_higher (monitor_states m envs ! i) (monitor_states m envs ! j)"
  proof (cases "i = j")
    case True
    then show ?thesis by (simp add: no_higher_refl)
  next
    case False
    with a have "i < j" "j < length (monitor_states m envs)"
      by (simp_all add: length_monitor_states)
    with monitor_states_sorted [of m envs] show ?thesis
      by (simp add: sorted_wrt_iff_nth_less)
  qed
  with a show "\<exists>b'. lowest_price_list (monitor_states m envs ! j) = Some b' \<and> b' \<le> b"
    by (auto simp: no_higher_def split: option.splits)
next
  fix i
  assume "i < length envs \<and>
    lowest_price_list (monitor_states m envs ! Suc i) \<noteq>
      lowest_price_list (monitor_states m envs ! i)"
  then show "should_send_email (snd (run_cycles m envs ! i))"
    using change_only_on_fire by blast
qed

text \<open>Three calls that see the lowest prices 7500, 7600 and 7200.\<close>

lemma three_cycles_states:
  "map lowest_price_list (monitor_states two_key_monitor three_cycles) =
     [None, Some 7500, Some 7500, Some 7200] \<and>
   map (\<lambda>r. should_send_email (snd r)) (run_cycles two_key_monitor three_cycles) =
     [True, False, True]"
  by (simp add: eval_defs)

text \<open>
  C2 on these three calls: 7500 is held after the first, the value after the third is
  not higher, and the third call, which changes the value, fires the alert.
\<close>

theorem lowest_price_list_monotone_witness:
  "lowest_price_list (monitor_states two_key_monitor three_cycles ! 1) = Some 7500 \<and>
   (\<exists>b'. lowest_price_list (monitor_states two_key_monitor three_cycles ! 3) = Some b' \<and>
      b' \<le> 7500) \<and>
   lowest_price_list (monitor_states two_key_monitor three_cycles ! Suc 2) \<noteq>
     lowest_price_list (monitor_states two_key_monitor three_cycles ! 2) \<and>
   should_send_email (snd (run_cycles two_key_monitor three_cycles ! 2))"
proof -
  let ?s = "monitor_states two_key_monitor three_cycles"
  have st: "map lowest_price_list ?s = [None, Some 7500, Some 7500, Some 7200]"
    using three_cycles_states by simp
  have len: "length three_cycles = 3"
    by (simp add: three_cycles_def)
  have l4: "length ?s = 4"
    by (simp add: length_monitor_states len)
  have n1: "lowest_price_list (?s ! 1) = Some 7500"
    using arg_cong [OF st, of "\<lambda>xs. xs ! 1"] l4 by simp
  have n2: "lowest_price_list (?s ! 2) = Some 7500"
    using arg_cong [OF st, of "\<lambda>xs. xs ! 2"] l4 by simp
  have n3: "lowest_price_list (?s ! Suc 2) = Some 7200"
    using arg_cong [OF st, of "\<lambda>xs. xs ! 3"] l4 by (simp add: numeral_3_eq_3)
  from lowest_price_list_monotone [of three_cycles two_key_monitor]
  have a: "\<exists>b'. lowest_price_list (?s ! 3) = Some b' \<and> b' \<le> 7500"
    and b: "should_send_email (snd (run_cycles two_key_monitor three_cycles ! 2))"
    using n1 n2 n3 len by (auto simp: numeral_3_eq_3)
  from n1 n2 n3 a b show ?thesis by simp
qed


text \<open>
  C3, on the code. The specification says that a call whose alert fires while \<open>send_email\<close>
  fails is reported as failed and leaves \<open>lowest_price_list\<close> as it was.
  \<open>check_flight_price\<close> assigns \<open>lowest_price_list\<close> at lines 305 and 308, before
  \<open>send_email\<close> is called at line 317: with the threshold 8000, no price held and the
  prices 7500 and 9000, the call whose email fails returns \<open>False\<close> and leaves 7500
  in \<open>lowest_price_list\<close> and \<open>last_price\<close>. The retry that the failure schedules sees
  the same prices, and no longer fires the alert.
\<close>

theorem notification_failure_keeps_new_lowest:
  "check_flight_price two_key_monitor
     (cycle_with (ElementText ''7 500 kr'') (ElementText ''9 000 kr'') False) =
     (two_key_monitor\<lparr>last_price := Some 7500, lowest_price_list := Some 7500\<rparr>,
      \<lparr>statue = False, should_send_email = True, email_body = Some [(key1, 7500)]\<rparr>) \<and>
   lowest_price_list two_key_monitor = None \<and>
   check_flight_price (two_key_monitor\<lparr>last_price := Some 7500, lowest_price_list := Some 7500\<rparr>)
     (cycle_with (ElementText ''7 500 kr'') (ElementText ''9 000 kr'') True) =
     (two_key_monitor\<lparr>last_price := Some 7500, lowest_price_list := Some 7500\<rparr>,
      \<lparr>statue = True, should_send_email = False, email_body = None\<rparr>)"
  by (simp add: eval_defs)

text \<open>
  C4: a call of \<open>check_flight_price\<close> in which no fetched observation parses to a
  price returns \<open>False\<close> and leaves the monitor as it was, \<open>lowest_price_list\<close> and
  \<open>last_price\<close> included.
\<close>

theorem no_valid_prices_fails:
  assumes "\<forall>raw. fst (fetch_flight_data (urls m) (pages env)) = Some raw \<longrightarrow>
     valid_prices_of (parse_price raw) = []"
  shows "\<not> statue (snd (check_flight_price m env)) \<and>
     lowest_price_list (fst (check_flight_price m env)) = lowest_price_list m \<and>
     last_price (fst (check_flight_price m env)) = last_price m \<and>
     fst (check_flight_price m env) = m"
proof -
  have "check_flight_price m env =
     (m, \<lparr>statue = False, should_send_email = False, email_body = None\<rparr>)"
    using assms
    by (intro check_flight_price_failed)
      (cases "fst (fetch_flight_data (urls m) (pages env))", auto)
  then show ?thesis by simp
qed

text \<open>C4 on two pages whose texts hold no digit.\<close>

theorem no_valid_prices_fails_witness:
  "fst (fetch_flight_data (urls two_key_monitor)
     (pages (cycle_with (ElementText ''Sold out'') (ElementText ''-'') True))) =
     Some [(key1, Some ''Sold out''), (key2, Some ''-'')] \<and>
   parse_price [(key1, Some ''Sold out''), (key2, Some ''-'')] = [(key1, None), (key2, None)] \<and>
   \<not> statue (snd (check_flight_price two_key_monitor
     (cycle_with (ElementText ''Sold out'') (ElementText ''-'') True))) \<and>
   fst (check_flight_price two_key_monitor
     (cycle_with (ElementText ''Sold out'') (ElementText ''-'') True)) = two_key_monitor"
proof -
  let ?env = "cycle_with (ElementText ''Sold out'') (ElementText ''-'') True"
  have f: "fst (fetch_flight_data (urls two_key_monitor) (pages ?env)) =
     Some [(key1, Some ''Sold out''), (key2, Some ''-'')]"
    by (simp add: eval_defs)
  have p: "parse_price [(key1, Some ''Sold out''), (key2, Some ''-'')] = [(key1, None), (key2, None)]"
    by (simp add: eval_defs)
  have h: "\<forall>raw. fst (fetch_flight_data (urls two_key_monitor) (pages ?env)) = Some raw \<longrightarrow>
     valid_prices_of (parse_price raw) = []"
    using f p by simp
  from no_valid_prices_fails [OF h] f p show ?thesis by simp
qed

section \<open>Properties of \<open>fetch_flight_data\<close>\<close>

text \<open>
  C5, on the code. The specification says that a key for which no selector yields a text
  holding \<open>kr\<close> is recorded with \<open>None\<close> and has its page saved, whatever was extracted
  for earlier keys. \<open>raw_price\<close> is not reset between keys: when the first selector
  finds \<open>7 500 kr\<close> on the page of the first key and every selector times out on the
  page of the second, the second key is recorded with the first key's text and no
  page is saved. When every selector times out on the first page too, \<open>raw_price\<close>
  is unbound at line 205; the handler at line 215 records \<open>None\<close> and no page is saved.
  When the first selector finds the text \<open>Sold out\<close>, which holds no \<open>kr\<close>, line 205 takes
  it for a price text: both keys are recorded with it and no page is saved.
\<close>

theorem stale_raw_price_recorded:
  "fetch_flight_data [key1, key2] (two_pages (ElementText ''7 500 kr'') TimeoutException) =
     (Some [(key1, Some ''7 500 kr''), (key2, Some ''7 500 kr'')], []) \<and>
   fetch_flight_data [key1, key2] (two_pages TimeoutException TimeoutException) =
     (Some [(key1, None), (key2, None)], []) \<and>
   fetch_flight_data [key1, key2] (two_pages (ElementText ''Sold out'') TimeoutException) =
     (Some [(key1, Some ''Sold out''), (key2, Some ''Sold out'')], [])"
  by (simp add: eval_defs)

section \<open>Properties of \<open>run\<close>\<close>

text \<open>The monitor and the action of one iteration, and when the loop ends.\<close>

lemma run_iteration_state:
  "fst (run_iteration m env ev) = (if ev = KeyboardInterrupt then m else fst (check_flight_price m env))"
  by (cases ev) (simp_all add: run_iteration_def case_prod_beta)

lemma run_iteration_action:
  "snd (run_iteration m env ev) =
     (case ev of
        KeyboardInterrupt \<Rightarrow> Break
      | UnexpectedException \<Rightarrow> Sleep (check_interval m)
      | Completes \<Rightarrow>
          if statue (snd (check_flight_price m env)) then Sleep (check_interval m)
          else Sleep (retry_interval m))"
  using check_flight_price_step [of m env "fst (check_flight_price m env)" "snd (check_flight_price m env)"]
  by (cases ev) (simp_all add: run_iteration_def case_prod_beta)

lemma run_break_iff:
  "Break \<in> set (snd (run m evs)) \<longleftrightarrow> KeyboardInterrupt \<in> snd ` set evs"
proof (induction evs arbitrary: m)
  case Nil
  then show ?case by simp
next
  case (Cons a evs)
  obtain env ev where a: "a = (env, ev)" by (cases a)
  obtain m' act where r: "run_iteration m env ev = (m', act)" by (cases "run_iteration m env ev")
  with run_iteration_action [of m env ev] have act: "act = Break \<longleftrightarrow> ev = KeyboardInterrupt"
    by (cases ev) (auto split: if_splits)
  show ?case
  proof (cases act)
    case Break
    with a r act show ?thesis by simp
  next
    case (Sleep n)
    with a r act Cons.IH [of m'] show ?thesis
      by (auto split: prod.splits)
  qed
qed

lemma run_length:
  "KeyboardInterrupt \<notin> snd ` set evs \<Longrightarrow> length (snd (run m evs)) = length evs"
proof (induction evs arbitrary: m)
  case Nil
  then show ?case by simp
next
  case (Cons a evs)
  obtain env ev where a: "a = (env, ev)" by (cases a)
  obtain m' act where r: "run_iteration m env ev = (m', act)" by (cases "run_iteration m env ev")
  with run_iteration_action [of m env ev] have act: "act = Break \<longleftrightarrow> ev = KeyboardInterrupt"
    by (cases ev) (auto split: if_splits)
  with Cons.prems a obtain n where n: "act = Sleep n" by (cases act) auto
  from Cons.prems a Cons.IH [of m'] r n show ?case
    by (auto split: prod.splits)
qed

text \<open>
  C6, as the code has it. The specification says that every failed cycle, a cycle that ends
  in an unexpected error caught at the top level included, is followed by a sleep of
  \<open>retry_interval\<close>. The handler at line 365 sleeps \<open>check_interval\<close>: with the
  intervals of \<open>__init__\<close> the sleep after an unexpected error is 1800 seconds, not 60.
\<close>

theorem unexpected_error_sleep_counterexample:
  "snd (run_iteration two_key_monitor
      (cycle_with (ElementText ''7 500 kr'') (ElementText ''9 000 kr'') False)
      UnexpectedException) = Sleep 1800 \<and>
   retry_interval two_key_monitor = 60 \<and>
   snd (run_iteration two_key_monitor
      (cycle_with (ElementText ''7 500 kr'') (ElementText ''9 000 kr'') False)
      UnexpectedException) \<noteq> Sleep (retry_interval two_key_monitor)"
  by (simp add: run_iteration_def eval_defs)

text \<open>
  C6, amended: in every iteration of the loop of \<open>run\<close>, a call of
  \<open>check_flight_price\<close> that returns \<open>True\<close> is followed by a sleep of
  \<open>check_interval\<close> and one that returns \<open>False\<close> by a sleep of \<open>retry_interval\<close>; an
  unexpected error caught at the top level is followed by a sleep of
  \<open>check_interval\<close>; and only the operator's \<open>KeyboardInterrupt\<close> ends the loop: the
  loop breaks if and only if one occurs, and without one every iteration is followed
  by a sleep.
\<close>

theorem run_sleeps:
  "(statue (snd (check_flight_price m env)) \<longrightarrow>
      snd (run_iteration m env Completes) = Sleep (check_interval m)) \<and>
   (\<not> statue (snd (check_flight_price m env)) \<longrightarrow>
      snd (run_iteration m env Completes) = Sleep (retry_interval m)) \<and>
   snd (run_iteration m env UnexpectedException) = Sleep (check_interval m) \<and>
   snd (run_iteration m env KeyboardInterrupt) = Break \<and>
   (Break \<in> set (snd (run m evs)) \<longleftrightarrow> KeyboardInterrupt \<in> snd ` set evs) \<and>
   (KeyboardInterrupt \<notin> snd ` set evs \<longrightarrow> length (snd (run m evs)) = length evs)"
  using run_break_iff [of m evs] run_length [of evs m]
  by (simp add: run_iteration_action)

text \<open>
  The amended C6 with the intervals of \<open>__init__\<close>: 1800 seconds after a successful
  call, 60 after a failed one, and two iterations without an interrupt give two sleeps.
\<close>

theorem run_sleeps_witness:
  "statue (snd (check_flight_price two_key_monitor
      (cycle_with (ElementText ''7 500 kr'') (ElementText ''9 000 kr'') True))) \<and>
   snd (run_iteration two_key_monitor
      (cycle_with (ElementText ''7 500 kr'') (ElementText ''9 000 kr'') True) Completes) =
     Sleep 1800 \<and>
   \<not> statue (snd (check_flight_price two_key_monitor
      (cycle_with (ElementText ''7 500 kr'') (ElementText ''9 000 kr'') False))) \<and>
   snd (run_iteration two_key_monitor
      (cycle_with (ElementText ''7 500 kr'') (ElementText ''9 000 kr'') False) Completes) =
     Sleep 60 \<and>
   KeyboardInterrupt \<notin> snd ` set
     [(cycle_with (ElementText ''7 500 kr'') (ElementText ''9 000 kr'') False, Completes),
      (cycle_with (ElementText ''7 500 kr'') (ElementText ''9 000 kr'') True, Completes)] \<and>
   length (snd (run two_key_monitor
     [(cycle_with (ElementText ''7 500 kr'') (ElementText ''9 000 kr'') False, Completes),
      (cycle_with (ElementText ''7 500 kr'') (ElementText ''9 000 kr'') True, Completes)])) = 2"
proof -
  let ?ok = "cycle_with (ElementText ''7 500 kr'') (ElementText ''9 000 kr'') True"
  let ?ko = "cycle_with (ElementText ''7 500 kr'') (ElementText ''9 000 kr'') False"
  have s1: "statue (snd (check_flight_price two_key_monitor ?ok))"
    by (simp add: eval_defs)
  have s2: "\<not> statue (snd (check_flight_price two_key_monitor ?ko))"
    by (simp add: eval_defs)
  have i: "check_interval two_key_monitor = 1800" "retry_interval two_key_monitor = 60"
    by (simp_all add: two_key_monitor_def init_fields_def)
  show ?thesis
    using run_sleeps [of two_key_monitor ?ok "[(?ko, Completes), (?ok, Completes)]"]
      run_sleeps [of two_key_monitor ?ko "[]"] s1 s2 i
    by simp
qed

section \<open>The held lowest price stays below the threshold\<close>

text \<open>
  C10: if \<open>lowest_price_list\<close> is \<open>None\<close> (as \<open>__init__\<close> leaves it) or below
  \<open>price_threshold\<close>, then after any sequence of calls of \<open>check_flight_price\<close> the
  threshold is the same and \<open>lowest_price_list\<close>, when set, is strictly below it.
\<close>

theorem lowest_price_list_below_threshold:
  assumes "\<forall>b. lowest_price_list m = Some b \<longrightarrow> b < price_threshold m"
  shows "\<forall>s\<in>set (monitor_states m envs).
     price_threshold s = price_threshold m \<and>
     (\<forall>b. lowest_price_list s = Some b \<longrightarrow> b < price_threshold m)"
proof
  fix s
  assume "s \<in> set (monitor_states m envs)"
  from below_threshold_all [OF assms this]
  show "price_threshold s = price_threshold m \<and>
     (\<forall>b. lowest_price_list s = Some b \<longrightarrow> b < price_threshold m)"
    by auto
qed

text \<open>C10 on the three calls above: 7200 is held at the end, below 8000.\<close>

theorem lowest_price_list_below_threshold_witness:
  "lowest_price_list two_key_monitor = None \<and>
   lowest_price_list (monitor_states two_key_monitor three_cycles ! 3) = Some 7200 \<and>
   price_threshold (monitor_states two_key_monitor three_cycles ! 3) = 8000 \<and>
   (7200 :: int) < price_threshold two_key_monitor"
proof -
  let ?s = "monitor_states two_key_monitor three_cycles"
  have h: "\<forall>b. lowest_price_list two_key_monitor = Some b \<longrightarrow> b < price_threshold two_key_monitor"
    by (simp add: two_key_monitor_def init_fields_def)
  have l4: "length ?s = 4"
    by (simp add: length_monitor_states three_cycles_def)
  then have ne: "?s ! 3 \<in> set ?s"
    by simp
  have l: "lowest_price_list (?s ! 3) = Some 7200"
    using arg_cong [OF conjunct1 [OF three_cycles_states], of "\<lambda>xs. xs ! 3"] l4 by simp
  have t: "price_threshold two_key_monitor = 8000" "lowest_price_list two_key_monitor = None"
    by (simp_all add: two_key_monitor_def init_fields_def)
  from lowest_price_list_below_threshold [OF h, of three_cycles] ne l t show ?thesis
    by auto
qed

end
